theory Spec2Isabelle
  imports Main "HOL-Library.Sublist"
begin

section \<open>JavaScript strings\<close>

text \<open>
  A JavaScript string is a sequence of UTF-16 code units; \<open>length\<close>, regular expressions
  without the \<open>u\<close> flag, \<open>includes\<close> and \<open>trim\<close> all work on code units. A code unit is a
  natural number below \<open>0x10000\<close>. \<open>js\<close> turns an ASCII literal into its code units; the
  book emoji U+1F4DA is the surrogate pair \<open>0xD83D 0xDCDA\<close>.
\<close>

type_synonym jsstring = "nat list"

definition js :: "string \<Rightarrow> jsstring" where
  "js s = map of_char s"

definition book_emoji :: jsstring where
  "book_emoji = [0xD83D, 0xDCDA]"

text \<open>\<open>String.prototype.includes\<close>: is \<open>sub\<close> a substring of \<open>s\<close> (searched left to right).\<close>

fun includes_js :: "jsstring \<Rightarrow> jsstring \<Rightarrow> bool" where
  "includes_js [] sub = (sub = [])"
| "includes_js (c # cs) sub = (if take (length sub) (c # cs) = sub then True else includes_js cs sub)"

text \<open>
  The \<open>LineTerminator\<close> code units (what \<open>.\<close> refuses) and the code units matched by
  \<open>\s\<close>, which are also the ones \<open>trim\<close> removes: \<open>WhiteSpace\<close> and \<open>LineTerminator\<close>.
\<close>

definition isLineTerminator :: "nat \<Rightarrow> bool" where
  "isLineTerminator c \<longleftrightarrow> c = 0x0A \<or> c = 0x0D \<or> c = 0x2028 \<or> c = 0x2029"

definition isWhiteSpace :: "nat \<Rightarrow> bool" where
  "isWhiteSpace c \<longleftrightarrow>
     (0x09 \<le> c \<and> c \<le> 0x0D) \<or> c = 0x20 \<or> c = 0xA0 \<or> c = 0x1680 \<or>
     (0x2000 \<le> c \<and> c \<le> 0x200A) \<or> c = 0x2028 \<or> c = 0x2029 \<or> c = 0x202F \<or>
     c = 0x205F \<or> c = 0x3000 \<or> c = 0xFEFF"

definition trim :: "jsstring \<Rightarrow> jsstring" where
  "trim s = rev (dropWhile isWhiteSpace (rev (dropWhile isWhiteSpace s)))"

text \<open>
  Matching one pattern character under the \<open>i\<close> flag. The patterns of this program are
  ASCII; without the \<open>u\<close> flag a code unit from 128 on never canonicalises to an ASCII
  one, so an ASCII letter of the pattern matches its two ASCII cases and nothing else,
  and every other ASCII pattern character matches itself only.
\<close>

definition ci_eq :: "nat \<Rightarrow> nat \<Rightarrow> bool" where
  "ci_eq c p \<longleftrightarrow>
     c = p \<or> (0x61 \<le> p \<and> p \<le> 0x7A \<and> c + 0x20 = p) \<or> (0x41 \<le> p \<and> p \<le> 0x5A \<and> c = p + 0x20)"

text \<open>Does \<open>s\<close> start with the literal \<open>pat\<close>, case-insensitively; the rest after it.\<close>

fun strip_ci :: "jsstring \<Rightarrow> jsstring \<Rightarrow> jsstring option" where
  "strip_ci [] s = Some s"
| "strip_ci (p # ps) [] = None"
| "strip_ci (p # ps) (c # cs) = (if ci_eq c p then strip_ci ps cs else None)"

text \<open>The same for a pattern without the \<open>i\<close> flag.\<close>

fun strip_lit :: "jsstring \<Rightarrow> jsstring \<Rightarrow> jsstring option" where
  "strip_lit [] s = Some s"
| "strip_lit (p # ps) [] = None"
| "strip_lit (p # ps) (c # cs) = (if c = p then strip_lit ps cs else None)"

section \<open>Messages\<close>

text \<open>
  A message of the channel history as the scripts read it: every field may be missing.
  A field is truthy when it is present and not the empty string.
\<close>

record message =
  msg_text :: "jsstring option"
  bot_id :: "jsstring option"
  thread_ts :: "jsstring option"
  subtype :: "jsstring option"

definition truthy :: "jsstring option \<Rightarrow> bool" where
  "truthy v = (case v of None \<Rightarrow> False | Some s \<Rightarrow> s \<noteq> [])"

text \<open>\<open>v || ''\<close>\<close>

definition or_empty :: "jsstring option \<Rightarrow> jsstring" where
  "or_empty v = (case v of None \<Rightarrow> [] | Some s \<Rightarrow> s)"

section \<open>sync-bookmarks-to-microblog.js: extractUrls\<close>

text \<open>
  \<open>urlRegex = /<(https?:\/\/[^>|]+)(?:\|([^>]+))?>/g\<close>, tried at the start of a suffix of
  the text. \<open>url_scheme\<close> is \<open>https?:\/\/\<close>: the optional \<open>s\<close> is taken first, and
  the match backtracks to leaving it out.
\<close>

definition url_scheme :: "jsstring \<Rightarrow> (jsstring \<times> jsstring) option" where
  "url_scheme s =
     (case strip_lit (js ''http'') s of
        None \<Rightarrow> None
      | Some r \<Rightarrow>
        (case (case r of c # r' \<Rightarrow> if c = 0x73 then strip_lit (js ''://'') r' else None
                        | [] \<Rightarrow> None) of
           Some r'' \<Rightarrow> Some (js ''https://'', r'')
         | None \<Rightarrow> map_option (Pair (js ''http://'')) (strip_lit (js ''://'') r)))"

definition not_gt_bar :: "nat \<Rightarrow> bool" where
  "not_gt_bar c \<longleftrightarrow> c \<noteq> 0x3E \<and> c \<noteq> 0x7C"

definition not_gt :: "nat \<Rightarrow> bool" where
  "not_gt c \<longleftrightarrow> c \<noteq> 0x3E"

text \<open>
  One attempt of the regular expression at the start of \<open>s\<close>: group 1 (the url), group 2
  (the label, when the optional group took part) and the number of code units matched.
  \<open>[^>|]+\<close> takes the longest run: after a shorter one the next code unit is neither
  \<open>|\<close> nor \<open>>\<close>, so backtracking into it cannot succeed. The same holds for \<open>[^>]+\<close>.
\<close>

definition match_link_at :: "jsstring \<Rightarrow> (jsstring \<times> jsstring option \<times> nat) option" where
  "match_link_at s =
     (case s of
        [] \<Rightarrow> None
      | c0 # r0 \<Rightarrow>
        if c0 \<noteq> 0x3C then None
        else (case url_scheme r0 of
          None \<Rightarrow> None
        | Some (scheme, r1) \<Rightarrow>
          let body = takeWhile not_gt_bar r1; r2 = dropWhile not_gt_bar r1 in
          if body = [] then None
          else (case r2 of
            [] \<Rightarrow> None
          | c2 # r3 \<Rightarrow>
            if c2 = 0x3E then Some (scheme @ body, None, 1 + length scheme + length body + 1)
            else
              let label = takeWhile not_gt r3; r4 = dropWhile not_gt r3 in
              if label = [] \<or> r4 = [] then None
              else Some (scheme @ body, Some label,
                         1 + length scheme + length body + 1 + length label + 1))))"

text \<open>
  \<open>while ((match = urlRegex.exec(text)) !== null)\<close>: every match of the global regular
  expression from left to right. The first argument is how many code units are left
  before \<open>lastIndex\<close>; at 0 the expression is tried here, and where it fails, one code
  unit further. After the last match \<open>exec\<close> returns null and \<open>lastIndex\<close> is 0 again, so
  the next message is scanned from its start.
\<close>

fun urlRegex_exec :: "nat \<Rightarrow> jsstring \<Rightarrow> (jsstring \<times> jsstring option) list" where
  "urlRegex_exec k [] = []"
| "urlRegex_exec (Suc k) (c # cs) = urlRegex_exec k cs"
| "urlRegex_exec 0 (c # cs) =
     (case match_link_at (c # cs) of
        None \<Rightarrow> urlRegex_exec 0 cs
      | Some (url, label, n) \<Rightarrow> (url, label) # urlRegex_exec (n - 1) cs)"

text \<open>
  The body of the \<open>while\<close> loop for one message: \<open>match[1]\<close> is pushed unless it includes
  \<open>slack.com\<close>; \<open>match[2]\<close> is not read.
\<close>

definition message_urls :: "message \<Rightarrow> jsstring list" where
  "message_urls msg =
     filter (\<lambda>url. \<not> includes_js url (js ''slack.com''))
       (map fst (urlRegex_exec 0 (or_empty (msg_text msg))))"

text \<open>
  \<open>[...new Set(urls)]\<close>: a Set keeps its elements in insertion order, and adding an element
  it already has changes nothing.
\<close>

definition Set_add :: "'a list \<Rightarrow> 'a \<Rightarrow> 'a list" where
  "Set_add s x = (if x \<in> set s then s else s @ [x])"

definition new_Set :: "'a list \<Rightarrow> 'a list" where
  "new_Set xs = foldl Set_add [] xs"

definition extractUrls :: "message list \<Rightarrow> jsstring list" where
  "extractUrls messages = new_Set (concat (map message_urls messages))"

section \<open>sync-books-to-microblog.js: parseBookFromMessage and extractBooks\<close>

record book =
  title :: jsstring
  author :: "jsstring option"

text \<open>\<open>s.replace(/^pat\s*/i, '')\<close> for a literal \<open>pat\<close>: a match at the start is cut out.\<close>

definition replace_prefix :: "jsstring \<Rightarrow> jsstring \<Rightarrow> jsstring" where
  "replace_prefix pat s =
     (case strip_ci pat s of None \<Rightarrow> s | Some r \<Rightarrow> dropWhile isWhiteSpace r)"

definition cleaned_text :: "jsstring \<Rightarrow> jsstring" where
  "cleaned_text t =
     trim (replace_prefix (js ''now reading:'')
       (replace_prefix (js ''reading:'')
         (replace_prefix (js ''currently reading:'')
           (replace_prefix book_emoji t))))"

text \<open>
  \<open>cleaned.match(/^(.+?)\s+by\s+(.+)$/i)\<close>, as the backtracking matcher runs it. The
  expression is anchored, so it is tried at index 0 only. From the right:
  \<open>(.+)$\<close> is the whole rest, which must be non-empty and free of line terminators.
\<close>

definition rest_group :: "jsstring \<Rightarrow> jsstring option" where
  "rest_group s = (if s \<noteq> [] \<and> \<not> list_ex isLineTerminator s then Some s else None)"

text \<open>\<open>\s+(.+)$\<close>: the greedy \<open>\s+\<close> goes on while it can and gives back on failure.\<close>

fun ws_group :: "jsstring \<Rightarrow> jsstring option" where
  "ws_group [] = None"
| "ws_group (c # cs) =
     (if isWhiteSpace c
      then (case ws_group cs of Some g \<Rightarrow> Some g | None \<Rightarrow> rest_group cs)
      else None)"

text \<open>\<open>by\s+(.+)$\<close> under the \<open>i\<close> flag.\<close>

definition by_ws_group :: "jsstring \<Rightarrow> jsstring option" where
  "by_ws_group s =
     (case s of
        b # y # r \<Rightarrow> if ci_eq b 0x62 \<and> ci_eq y 0x79 then ws_group r else None
      | _ \<Rightarrow> None)"

text \<open>\<open>\s+by\s+(.+)$\<close>\<close>

fun ws_by_ws_group :: "jsstring \<Rightarrow> jsstring option" where
  "ws_by_ws_group [] = None"
| "ws_by_ws_group (c # cs) =
     (if isWhiteSpace c
      then (case ws_by_ws_group cs of Some g \<Rightarrow> Some g | None \<Rightarrow> by_ws_group cs)
      else None)"

text \<open>
  \<open>(.+?)\<close> with what group 1 holds so far: the lazy quantifier takes one more code unit
  (not a line terminator), tries the rest of the expression, and only when that fails
  takes another one.
\<close>

fun byMatch_from :: "jsstring \<Rightarrow> jsstring \<Rightarrow> (jsstring \<times> jsstring) option" where
  "byMatch_from g1 [] = None"
| "byMatch_from g1 (c # cs) =
     (if isLineTerminator c then None
      else (case ws_by_ws_group cs of
              Some g2 \<Rightarrow> Some (g1 @ [c], g2)
            | None \<Rightarrow> byMatch_from (g1 @ [c]) cs))"

definition byMatch :: "jsstring \<Rightarrow> (jsstring \<times> jsstring) option" where
  "byMatch cleaned = byMatch_from [] cleaned"

definition parseBookFromMessage :: "jsstring \<Rightarrow> book option" where
  "parseBookFromMessage t =
     (let cleaned = cleaned_text t in
      case byMatch cleaned of
        Some (g1, g2) \<Rightarrow> Some \<lparr>title = trim g1, author = Some (trim g2)\<rparr>
      | None \<Rightarrow>
        if length cleaned > 0 \<and> length cleaned < 200
        then Some \<lparr>title = cleaned, author = None\<rparr>
        else None)"

text \<open>
  The key of a book: \<open>`${book.title.toLowerCase()}|${(book.author || '').toLowerCase()}`\<close>.
  \<open>String.prototype.toLowerCase\<close> is the parameter \<open>lc\<close>; \<open>ascii_toLowerCase\<close> is what it
  does on ASCII text.
\<close>

definition book_key :: "(jsstring \<Rightarrow> jsstring) \<Rightarrow> book \<Rightarrow> jsstring" where
  "book_key lc b = lc (title b) @ js ''|'' @ lc (or_empty (author b))"

definition ascii_toLowerCase :: "jsstring \<Rightarrow> jsstring" where
  "ascii_toLowerCase s = map (\<lambda>c. if 0x41 \<le> c \<and> c \<le> 0x5A then c + 0x20 else c) s"

text \<open>One round of the \<open>for\<close> loop of \<open>extractBooks\<close> on \<open>books\<close> and \<open>seenTitles\<close>.\<close>

definition extractBooks_step ::
  "(jsstring \<Rightarrow> jsstring) \<Rightarrow> book list \<times> jsstring set \<Rightarrow> message \<Rightarrow> book list \<times> jsstring set" where
  "extractBooks_step lc acc msg =
     (let t = or_empty (msg_text msg) in
      if includes_js t (js ''http://'') \<or> includes_js t (js ''https://'') then acc
      else if truthy (bot_id msg) \<or> truthy (thread_ts msg) then acc
      else if truthy (subtype msg) then acc
      else (case parseBookFromMessage t of
              None \<Rightarrow> acc
            | Some b \<Rightarrow>
              let key = book_key lc b in
              if key \<in> snd acc then acc
              else (fst acc @ [b], insert key (snd acc))))"

definition extractBooks :: "(jsstring \<Rightarrow> jsstring) \<Rightarrow> message list \<Rightarrow> book list" where
  "extractBooks lc messages = fst (foldl (extractBooks_step lc) ([], {}) messages)"

section \<open>The state file\<close>

text \<open>
  The state both scripts keep: \<open>{ syncedUrls: [...], lastSync }\<close> in one,
  \<open>{ syncedBooks: [...], lastSync }\<close> in the other; \<open>syncedKeys\<close> stands for either list.
  The file is absent, cannot be read, or has contents. The contents are text that
  \<open>JSON.parse\<close> throws on (\<open>Garbage\<close>), the JSON of a state (\<open>Json\<close>), or JSON of a value
  that is \<open>null\<close> or has no list of synced keys, such as \<open>{}\<close>, \<open>[]\<close> or a number
  (\<open>OtherJson\<close>). \<open>JSON.parse\<close> returns such a value as it is: \<open>NotState\<close>; reading
  \<open>.length\<close> of its list of synced keys throws a \<open>TypeError\<close>.
\<close>

record sync_state =
  syncedKeys :: "jsstring list"
  lastSync :: "jsstring option"

datatype js_error = SystemError | SyntaxError | FetchError | TypeError | RangeError

datatype contents = Garbage | Json sync_state | OtherJson

datatype state_file = NoFile | NoAccess | File contents

datatype parsed = State sync_state | NotState

definition existsSync :: "state_file \<Rightarrow> bool" where
  "existsSync f = (f \<noteq> NoFile)"

definition readFileSync :: "state_file \<Rightarrow> js_error + contents" where
  "readFileSync f = (case f of File c \<Rightarrow> Inr c | _ \<Rightarrow> Inl SystemError)"

definition JSON_parse :: "contents \<Rightarrow> js_error + parsed" where
  "JSON_parse c =
     (case c of Garbage \<Rightarrow> Inl SyntaxError | Json s \<Rightarrow> Inr (State s) | OtherJson \<Rightarrow> Inr NotState)"

text \<open>
  The \<open>try\<close> block of \<open>loadState\<close>: it throws (\<open>Inl\<close>), returns a value (\<open>Inr (Some v)\<close>) or
  falls through (\<open>Inr None\<close>). \<open>loadState\<close> is the same function in both scripts; it
  returns what \<open>JSON.parse\<close> returned without looking at it.
\<close>

definition loadState_try :: "state_file \<Rightarrow> js_error + parsed option" where
  "loadState_try f =
     (if existsSync f
      then (case readFileSync f of
              Inl e \<Rightarrow> Inl e
            | Inr c \<Rightarrow> (case JSON_parse c of Inl e \<Rightarrow> Inl e | Inr v \<Rightarrow> Inr (Some v)))
      else Inr None)"

definition loadState :: "state_file \<Rightarrow> parsed" where
  "loadState f =
     (case loadState_try f of
        Inr (Some v) \<Rightarrow> v
      | Inr None \<Rightarrow> State \<lparr>syncedKeys = [], lastSync = None\<rparr>
      | Inl e \<Rightarrow> State \<lparr>syncedKeys = [], lastSync = None\<rparr>)"

text \<open>
  \<open>saveState\<close> overwrites the file with the state, or throws: \<open>fs.writeFileSync\<close> fails
  when the path cannot be written (no \<open>data\<close> directory, no permission). \<open>writable\<close>
  tells which.
\<close>

definition saveState :: "bool \<Rightarrow> sync_state \<Rightarrow> js_error + state_file" where
  "saveState writable s = (if writable then Inr (File (Json s)) else Inl SystemError)"

section \<open>fetchSlackMessages\<close>

text \<open>
  What the request gives: \<open>fetch\<close> or \<open>response.json()\<close> throws, or there is a
  \<open>data\<close> object with its \<open>ok\<close> flag and its \<open>messages\<close>, which may be missing.
\<close>

datatype slack_reply = Rejects | Data bool "message list option"

definition fetchSlackMessages :: "slack_reply \<Rightarrow> js_error + message list" where
  "fetchSlackMessages reply =
     (case reply of
        Rejects \<Rightarrow> Inl FetchError
      | Data ok messages \<Rightarrow>
        if \<not> ok then Inr []
        else Inr (case messages of None \<Rightarrow> [] | Some ms \<Rightarrow> ms))"

section \<open>main\<close>

text \<open>
  The environment variables the two scripts read. The books script takes as its channel
  \<open>process.env.SLACK_READING_CHANNEL_ID || process.env.SLACK_CHANNEL_ID\<close>.
\<close>

record config =
  SLACK_BOT_TOKEN :: "jsstring option"
  SLACK_CHANNEL_ID :: "jsstring option"
  SLACK_READING_CHANNEL_ID :: "jsstring option"
  MICROBLOG_TOKEN :: "jsstring option"
  MICROBLOG_BOOKSHELF_ID :: "jsstring option"

definition reading_channel :: "config \<Rightarrow> jsstring option" where
  "reading_channel cfg =
     (if truthy (SLACK_READING_CHANNEL_ID cfg) then SLACK_READING_CHANNEL_ID cfg
      else SLACK_CHANNEL_ID cfg)"

text \<open>
  How a run ends: \<open>process.exit(1)\<close>, the promise of \<open>main\<close> rejected with an error, or
  \<open>main\<close> returned. \<open>log\<close> is every call of the publishing function in order, with whether
  it returned (\<open>True\<close>) or threw; \<open>written\<close> is what \<open>saveState\<close> wrote, if it was called.
\<close>

datatype ending = Exit1 | Rejected js_error | Returned

record 'c run =
  ending :: ending
  log :: "('c \<times> bool) list"
  written :: "sync_state option"

definition attempted :: "'c run \<Rightarrow> 'c list" where
  "attempted r = map fst (log r)"

text \<open>The candidates whose call returned: the ones \<open>main\<close> pushes the key of.\<close>

definition recorded :: "'c run \<Rightarrow> 'c list" where
  "recorded r = map fst (filter snd (log r))"

text \<open>The file after a run: rewritten if \<open>saveState\<close> was called, else as it was.\<close>

definition file_after :: "state_file \<Rightarrow> 'c run \<Rightarrow> state_file" where
  "file_after f r = (case written r of None \<Rightarrow> f | Some s \<Rightarrow> File (Json s))"

text \<open>
  The \<open>for\<close> loop of both \<open>main\<close>s, on \<open>state\<close>, \<open>synced\<close> and the log of calls. One
  script runs \<open>try { await createMicroblogBookmark(url); state.syncedUrls.push(url);
  synced++; } catch (e) { }\<close>, the other the same with \<open>addBookToMicroblog\<close> and
  \<open>state.syncedBooks.push(key)\<close>. \<open>publish i c\<close> tells whether call number \<open>i\<close> of the run,
  for candidate \<open>c\<close>, returns (\<open>True\<close>) or throws; \<open>key c\<close> is what is pushed.
\<close>

fun sync_loop ::
  "('c \<Rightarrow> jsstring) \<Rightarrow> (nat \<Rightarrow> 'c \<Rightarrow> bool) \<Rightarrow> nat \<Rightarrow> 'c list \<Rightarrow>
   sync_state \<times> nat \<times> ('c \<times> bool) list \<Rightarrow> sync_state \<times> nat \<times> ('c \<times> bool) list" where
  "sync_loop key publish i [] acc = acc"
| "sync_loop key publish i (c # cs) (state, synced, calls) =
     (if publish i c
      then sync_loop key publish (Suc i) cs
             (state\<lparr>syncedKeys := syncedKeys state @ [key c]\<rparr>, Suc synced, calls @ [(c, True)])
      else sync_loop key publish (Suc i) cs (state, synced, calls @ [(c, False)]))"

text \<open>
  From the filter for new candidates to \<open>saveState\<close>: the rest of \<open>main\<close> once the state is
  loaded and the candidates are extracted. \<open>now\<close> is \<open>new Date().toISOString()\<close>.
  \<open>saveState\<close> is called outside every \<open>try\<close>: when it throws, \<open>main\<close> is rejected and
  nothing is written.
\<close>

definition sync_new ::
  "('c \<Rightarrow> jsstring) \<Rightarrow> (nat \<Rightarrow> 'c \<Rightarrow> bool) \<Rightarrow> bool \<Rightarrow> jsstring \<Rightarrow> sync_state \<Rightarrow> 'c list \<Rightarrow>
   'c run" where
  "sync_new key publish writable now state candidates =
     (let new = filter (\<lambda>c. key c \<notin> set (syncedKeys state)) candidates;
          (state', synced, calls) = sync_loop key publish 0 new (state, 0, [])
      in case saveState writable (state'\<lparr>lastSync := Some now\<rparr>) of
           Inl e \<Rightarrow> \<lparr>ending = Rejected e, log = calls, written = None\<rparr>
         | Inr f \<Rightarrow> \<lparr>ending = Returned, log = calls,
                     written = Some (state'\<lparr>lastSync := Some now\<rparr>)\<rparr>)"

text \<open>
  \<open>main\<close> of sync-bookmarks-to-microblog.js. \<open>createMicroblogBookmark i url\<close>: does call
  number \<open>i\<close> return (or throw, on a response that is not ok or a failed request).
  Reading \<open>state.syncedUrls.length\<close> of a loaded value that is not a state throws a
  \<open>TypeError\<close>, before the fetch.
\<close>

definition main_bookmarks ::
  "config \<Rightarrow> state_file \<Rightarrow> bool \<Rightarrow> slack_reply \<Rightarrow> (nat \<Rightarrow> jsstring \<Rightarrow> bool) \<Rightarrow> jsstring \<Rightarrow>
   jsstring run" where
  "main_bookmarks cfg file writable reply createMicroblogBookmark now =
     (if \<not> truthy (SLACK_BOT_TOKEN cfg) \<or> \<not> truthy (SLACK_CHANNEL_ID cfg)
      then \<lparr>ending = Exit1, log = [], written = None\<rparr>
      else if \<not> truthy (MICROBLOG_TOKEN cfg)
      then \<lparr>ending = Exit1, log = [], written = None\<rparr>
      else (case loadState file of
        NotState \<Rightarrow> \<lparr>ending = Rejected TypeError, log = [], written = None\<rparr>
      | State state \<Rightarrow>
        (case fetchSlackMessages reply of
          Inl e \<Rightarrow> \<lparr>ending = Rejected e, log = [], written = None\<rparr>
        | Inr messages \<Rightarrow>
          sync_new (\<lambda>url. url) createMicroblogBookmark writable now state
            (extractUrls messages))))"

text \<open>
  The bookshelf of sync-books-to-microblog.js: the configured one, or the first shelf
  of \<open>getBookshelves()\<close> (which may throw) whose lowercased title includes
  \<open>currently reading\<close>; its id may be undefined.
\<close>

record shelf =
  shelf_title :: jsstring
  shelf_id :: "jsstring option"

definition find_bookshelf ::
  "(jsstring \<Rightarrow> jsstring) \<Rightarrow> config \<Rightarrow> js_error + shelf list \<Rightarrow> ending + jsstring option" where
  "find_bookshelf lc cfg getBookshelves =
     (if truthy (MICROBLOG_BOOKSHELF_ID cfg) then Inr (MICROBLOG_BOOKSHELF_ID cfg)
      else (case getBookshelves of
              Inl e \<Rightarrow> Inl (Rejected e)
            | Inr items \<Rightarrow>
              (case find (\<lambda>s. includes_js (lc (shelf_title s)) (js ''currently reading'')) items of
                 Some s \<Rightarrow> Inr (shelf_id s)
               | None \<Rightarrow> Inl Exit1)))"

text \<open>
  \<open>main\<close> of sync-books-to-microblog.js. \<open>searchIsbn\<close> catches its own errors and returns
  an ISBN or null; \<open>addBookToMicroblog i book isbn shelf\<close>: does call number \<open>i\<close> return.
  Reading \<open>state.syncedBooks.length\<close> of a loaded value that is not a state throws a
  \<open>TypeError\<close>, after the bookshelf is found and before the fetch.
\<close>

definition main_books ::
  "(jsstring \<Rightarrow> jsstring) \<Rightarrow> config \<Rightarrow> js_error + shelf list \<Rightarrow> state_file \<Rightarrow> bool \<Rightarrow>
   slack_reply \<Rightarrow> (nat \<Rightarrow> book \<Rightarrow> jsstring option) \<Rightarrow>
   (nat \<Rightarrow> book \<Rightarrow> jsstring option \<Rightarrow> jsstring option \<Rightarrow> bool) \<Rightarrow> jsstring \<Rightarrow> book run" where
  "main_books lc cfg getBookshelves file writable reply searchIsbn addBookToMicroblog now =
     (if \<not> truthy (SLACK_BOT_TOKEN cfg) \<or> \<not> truthy (reading_channel cfg)
      then \<lparr>ending = Exit1, log = [], written = None\<rparr>
      else if \<not> truthy (MICROBLOG_TOKEN cfg)
      then \<lparr>ending = Exit1, log = [], written = None\<rparr>
      else (case find_bookshelf lc cfg getBookshelves of
        Inl e \<Rightarrow> \<lparr>ending = e, log = [], written = None\<rparr>
      | Inr bookshelfId \<Rightarrow>
        (case loadState file of
          NotState \<Rightarrow> \<lparr>ending = Rejected TypeError, log = [], written = None\<rparr>
        | State state \<Rightarrow>
          (case fetchSlackMessages reply of
            Inl e \<Rightarrow> \<lparr>ending = Rejected e, log = [], written = None\<rparr>
          | Inr messages \<Rightarrow>
            sync_new (book_key lc)
              (\<lambda>i b. addBookToMicroblog i b (searchIsbn i b) bookshelfId)
              writable now state (extractBooks lc messages)))))"

section \<open>fetch-bookmarks.js: extractBookmarks\<close>

text \<open>
  The other bookmark extractor of the repository, the one that gives its candidates a
  title. A candidate is \<open>{ url, title, date, dateFormatted }\<close>; \<open>date\<close> is the time value
  of the message's timestamp in milliseconds (the source keeps its ISO string, which
  determines it and is determined by it).
\<close>

record bookmark =
  bm_url :: jsstring
  bm_title :: jsstring
  bm_date :: int
  bm_dateFormatted :: jsstring

text \<open>\<open>await fetchPageTitle(url) || url\<close>, given what \<open>fetchPageTitle\<close> returned.\<close>

definition resolved_title :: "jsstring option \<Rightarrow> jsstring \<Rightarrow> jsstring" where
  "resolved_title fetched url = (if truthy fetched then the fetched else url)"

text \<open>
  The body of the \<open>while\<close> loop for match number \<open>j\<close> of message number \<open>i\<close>: nothing for
  a url that includes \<open>slack.com\<close>; else the title is the label, or, when there is no
  label or the label is the url, what \<open>fetchPageTitle\<close> gives (it catches its own errors
  and returns a title or null; \<open>fetchPageTitle i j url\<close> is what the call made here
  returns). \<open>timestamp\<close> is \<open>new Date(parseFloat(msg.ts) * 1000)\<close>, \<open>None\<close> for an invalid
  date, on which \<open>timestamp.toISOString()\<close> throws a \<open>RangeError\<close>; \<open>fmt\<close> is
  \<open>toLocaleDateString\<close> with the options of the source.
\<close>

definition bookmark_of_match ::
  "(nat \<Rightarrow> nat \<Rightarrow> jsstring \<Rightarrow> jsstring option) \<Rightarrow> (int \<Rightarrow> jsstring) \<Rightarrow> int option \<Rightarrow> nat \<Rightarrow>
   nat \<times> jsstring \<times> jsstring option \<Rightarrow> (js_error + bookmark) option" where
  "bookmark_of_match fetchPageTitle fmt timestamp i jm =
     (case jm of (j, url, label) \<Rightarrow>
        if includes_js url (js ''slack.com'') then None
        else Some
          (let title = (if \<not> truthy label \<or> label = Some url
                        then resolved_title (fetchPageTitle i j url) url
                        else the label)
           in case timestamp of
                None \<Rightarrow> Inl RangeError
              | Some d \<Rightarrow> Inr \<lparr>bm_url = url, bm_title = title, bm_date = d,
                                bm_dateFormatted = fmt d\<rparr>))"

definition message_bookmarks ::
  "(nat \<Rightarrow> nat \<Rightarrow> jsstring \<Rightarrow> jsstring option) \<Rightarrow> (int \<Rightarrow> jsstring) \<Rightarrow> (message \<Rightarrow> int option) \<Rightarrow>
   nat \<times> message \<Rightarrow> (js_error + bookmark) list" where
  "message_bookmarks fetchPageTitle fmt date_of im =
     (case im of (i, msg) \<Rightarrow>
        List.map_filter (bookmark_of_match fetchPageTitle fmt (date_of msg) i)
          (enumerate 0 (urlRegex_exec 0 (or_empty (msg_text msg)))))"

text \<open>The pushes in order up to the first one that throws.\<close>

fun collect :: "(js_error + 'a) list \<Rightarrow> js_error + 'a list" where
  "collect [] = Inr []"
| "collect (Inl e # xs) = Inl e"
| "collect (Inr x # xs) = (case collect xs of Inl e \<Rightarrow> Inl e | Inr ys \<Rightarrow> Inr (x # ys))"

definition pushed_bookmarks ::
  "(nat \<Rightarrow> nat \<Rightarrow> jsstring \<Rightarrow> jsstring option) \<Rightarrow> (int \<Rightarrow> jsstring) \<Rightarrow> (message \<Rightarrow> int option) \<Rightarrow>
   message list \<Rightarrow> js_error + bookmark list" where
  "pushed_bookmarks fetchPageTitle fmt date_of messages =
     collect (concat (map (message_bookmarks fetchPageTitle fmt date_of) (enumerate 0 messages)))"

text \<open>
  \<open>bookmarks.filter(b => { if (seen.has(b.url)) return false; seen.add(b.url); return
  true; })\<close>
\<close>

fun filter_seen :: "jsstring set \<Rightarrow> bookmark list \<Rightarrow> bookmark list" where
  "filter_seen seen [] = []"
| "filter_seen seen (b # bs) =
     (if bm_url b \<in> seen then filter_seen seen bs
      else b # filter_seen (insert (bm_url b) seen) bs)"

text \<open>
  \<open>extractBookmarks\<close>: the pushes, sorted by date with the newest first (the sort of
  arrays is stable), then without the later duplicates of a url.
\<close>

definition extractBookmarks ::
  "(nat \<Rightarrow> nat \<Rightarrow> jsstring \<Rightarrow> jsstring option) \<Rightarrow> (int \<Rightarrow> jsstring) \<Rightarrow> (message \<Rightarrow> int option) \<Rightarrow>
   message list \<Rightarrow> js_error + bookmark list" where
  "extractBookmarks fetchPageTitle fmt date_of messages =
     (case pushed_bookmarks fetchPageTitle fmt date_of messages of
        Inl e \<Rightarrow> Inl e
      | Inr bookmarks \<Rightarrow> Inr (filter_seen {} (sort_key (\<lambda>b. - bm_date b) bookmarks)))"

section \<open>Notions used to state the properties\<close>

text \<open>
  What one message gives \<open>extractBooks\<close> before the check for duplicates: nothing when
  one of the three \<open>continue\<close> tests fires, else what \<open>parseBookFromMessage\<close> returns.
\<close>

definition message_book :: "message \<Rightarrow> book option" where
  "message_book msg =
     (let t = or_empty (msg_text msg) in
      if includes_js t (js ''http://'') \<or> includes_js t (js ''https://'') then None
      else if truthy (bot_id msg) \<or> truthy (thread_ts msg) then None
      else if truthy (subtype msg) then None
      else parseBookFromMessage t)"

text \<open>
  The elements of \<open>xs\<close> at the positions where their key occurs for the first time, in
  the order of \<open>xs\<close>.
\<close>

definition first_by :: "('a \<Rightarrow> 'k) \<Rightarrow> 'a list \<Rightarrow> 'a list" where
  "first_by f xs =
     map (\<lambda>i. xs ! i) (filter (\<lambda>i. f (xs ! i) \<notin> f ` set (take i xs)) [0..<length xs])"

text \<open>
  The language of \<open>/^(.+?)\s+by\s+(.+)$/i\<close> with its two groups, read off the expression:
  \<open>s\<close> is \<open>g1\<close>, white space, \<open>by\<close> in either case, white space, \<open>g2\<close>, where both groups
  are non-empty and hold no line terminator.
\<close>

definition by_shape :: "jsstring \<Rightarrow> jsstring \<Rightarrow> jsstring \<Rightarrow> bool" where
  "by_shape s g1 g2 \<longleftrightarrow>
     (\<exists>w1 b y w2.
        s = g1 @ w1 @ [b, y] @ w2 @ g2 \<and>
        g1 \<noteq> [] \<and> \<not> list_ex isLineTerminator g1 \<and>
        w1 \<noteq> [] \<and> list_all isWhiteSpace w1 \<and>
        ci_eq b 0x62 \<and> ci_eq y 0x79 \<and>
        w2 \<noteq> [] \<and> list_all isWhiteSpace w2 \<and>
        g2 \<noteq> [] \<and> \<not> list_ex isLineTerminator g2)"

text \<open>Inputs for the examples: a configuration with every variable set, and messages.\<close>

definition full_config :: config where
  "full_config =
     \<lparr>SLACK_BOT_TOKEN = Some (js ''xoxb''), SLACK_CHANNEL_ID = Some (js ''C01''),
      SLACK_READING_CHANNEL_ID = None,
      MICROBLOG_TOKEN = Some (js ''tok''), MICROBLOG_BOOKSHELF_ID = Some (js ''7'')\<rparr>"

definition user_message :: "string \<Rightarrow> message" where
  "user_message t = \<lparr>msg_text = Some (js t), bot_id = None, thread_ts = None, subtype = None\<rparr>"

definition bot_message :: "string \<Rightarrow> message" where
  "bot_message t =
     \<lparr>msg_text = Some (js t), bot_id = Some (js ''B01''), thread_ts = None, subtype = None\<rparr>"

definition three_links :: slack_reply where
  "three_links = Data True (Some [user_message ''<https://a.example> and <https://b.example|B>'',
                                  user_message ''<https://c.example>''])"

definition three_books :: slack_reply where
  "three_books = Data True (Some [user_message ''Dune by Frank Herbert'', user_message ''Emma'',
                                  user_message ''Ulysses by James Joyce''])"

text \<open>The part of that language after group 1: \<open>\s+by\s+(.+)$\<close>.\<close>

definition by_tail :: "jsstring \<Rightarrow> jsstring \<Rightarrow> bool" where
  "by_tail s g2 \<longleftrightarrow>
     (\<exists>w1 b y w2.
        s = w1 @ [b, y] @ w2 @ g2 \<and>
        w1 \<noteq> [] \<and> list_all isWhiteSpace w1 \<and>
        ci_eq b 0x62 \<and> ci_eq y 0x79 \<and>
        w2 \<noteq> [] \<and> list_all isWhiteSpace w2 \<and>
        g2 \<noteq> [] \<and> \<not> list_ex isLineTerminator g2)"

section \<open>Lemmas on the loop and on deduplication\<close>

lemmas eval_defs =
  js_def book_emoji_def isLineTerminator_def isWhiteSpace_def trim_def ci_eq_def truthy_def
  or_empty_def url_scheme_def not_gt_bar_def not_gt_def match_link_at_def message_urls_def
  Set_add_def new_Set_def extractUrls_def replace_prefix_def cleaned_text_def rest_group_def
  by_ws_group_def byMatch_def parseBookFromMessage_def book_key_def ascii_toLowerCase_def
  extractBooks_step_def extractBooks_def existsSync_def readFileSync_def JSON_parse_def
  loadState_try_def loadState_def saveState_def fetchSlackMessages_def attempted_def
  recorded_def file_after_def sync_new_def main_bookmarks_def find_bookshelf_def
  main_books_def full_config_def user_message_def bot_message_def reading_channel_def
  resolved_title_def bookmark_of_match_def message_bookmarks_def pushed_bookmarks_def
  extractBookmarks_def map_filter_simps Let_def

lemma sync_loop_eq:
  "sync_loop key pub i cs (st, n, calls) =
     (st\<lparr>syncedKeys := syncedKeys st @ map (key \<circ> snd) (filter (\<lambda>(j, c). pub j c) (enumerate i cs))\<rparr>,
      n + length (filter (\<lambda>(j, c). pub j c) (enumerate i cs)),
      calls @ map (\<lambda>(j, c). (c, pub j c)) (enumerate i cs))"
  by (induction cs arbitrary: i st n calls) auto




lemma foldl_Set_add_set: "set (foldl Set_add acc xs) = set acc \<union> set xs"
  by (induction xs arbitrary: acc) (auto simp: Set_add_def)

lemma foldl_Set_add_distinct: "distinct acc \<Longrightarrow> distinct (foldl Set_add acc xs)"
  by (induction xs arbitrary: acc) (auto simp: Set_add_def)

lemma set_new_Set: "set (new_Set xs) = set xs"
  by (simp add: new_Set_def foldl_Set_add_set)

lemma distinct_new_Set: "distinct (new_Set xs)"
  by (simp add: new_Set_def foldl_Set_add_distinct)

lemma first_by_snoc:
  "first_by f (xs @ [x]) = first_by f xs @ (if f x \<in> f ` set xs then [] else [x])"
proof -
  have a: "filter (\<lambda>i. f ((xs @ [x]) ! i) \<notin> f ` set (take i (xs @ [x]))) [0..<length xs]
         = filter (\<lambda>i. f (xs ! i) \<notin> f ` set (take i xs)) [0..<length xs]"
    by (intro filter_cong refl) (auto simp: nth_append)
  have b: "map (\<lambda>i. (xs @ [x]) ! i) (filter (\<lambda>i. f (xs ! i) \<notin> f ` set (take i xs)) [0..<length xs])
         = map (\<lambda>i. xs ! i) (filter (\<lambda>i. f (xs ! i) \<notin> f ` set (take i xs)) [0..<length xs])"
    by (intro map_cong refl) (auto simp: nth_append)
  have c: "[0..<length (xs @ [x])] = [0..<length xs] @ [length xs]" by simp
  show ?thesis
    unfolding first_by_def by (simp only: c filter_append map_append a b) simp
qed

lemma new_Set_snoc: "new_Set (xs @ [x]) = (if x \<in> set xs then new_Set xs else new_Set xs @ [x])"
  by (simp add: new_Set_def Set_add_def foldl_Set_add_set)

lemma new_Set_first_by: "new_Set xs = first_by (\<lambda>u. u) xs"
proof (induction xs rule: rev_induct)
  case Nil
  then show ?case by (simp add: new_Set_def first_by_def)
next
  case (snoc x xs)
  then show ?case by (simp add: new_Set_snoc first_by_snoc)
qed

lemma first_by_Nil: "first_by f [] = []"
  by (simp add: first_by_def)

lemma set_first_by: "f ` set (first_by f xs) = f ` set xs"
  by (induction xs rule: rev_induct) (auto simp: first_by_snoc first_by_Nil)

lemma distinct_first_by: "distinct (map f (first_by f xs))"
proof (induction xs rule: rev_induct)
  case Nil
  then show ?case by (simp add: first_by_Nil)
next
  case (snoc x xs)
  then show ?case using set_first_by [of f xs] by (auto simp: first_by_snoc)
qed

lemma extractBooks_step_eq:
  "extractBooks_step lc acc msg =
     (case message_book msg of
        None \<Rightarrow> acc
      | Some b \<Rightarrow> if book_key lc b \<in> snd acc then acc
                  else (fst acc @ [b], insert (book_key lc b) (snd acc)))"
  by (simp add: extractBooks_step_def message_book_def Let_def split: option.splits)

lemma extractBooks_seen:
  "snd acc = book_key lc ` set (fst acc) \<Longrightarrow>
   snd (foldl (extractBooks_step lc) acc ms) = book_key lc ` set (fst (foldl (extractBooks_step lc) acc ms))"
proof (induction ms arbitrary: acc)
  case Nil
  then show ?case by simp
next
  case (Cons m ms)
  have "snd (extractBooks_step lc acc m) = book_key lc ` set (fst (extractBooks_step lc acc m))"
    using Cons.prems by (auto simp: extractBooks_step_eq split: option.splits)
  from Cons.IH [OF this] show ?case by simp
qed

lemma extractBooks_snoc:
  "extractBooks lc (ms @ [m]) =
     (case message_book m of
        None \<Rightarrow> extractBooks lc ms
      | Some b \<Rightarrow> if book_key lc b \<in> book_key lc ` set (extractBooks lc ms) then extractBooks lc ms
                  else extractBooks lc ms @ [b])"
  using extractBooks_seen [of "([], {})" lc ms]
  by (simp add: extractBooks_def extractBooks_step_eq split: option.splits)

lemma map_filter_snoc:
  "List.map_filter f (xs @ [x]) = List.map_filter f xs @ (case f x of None \<Rightarrow> [] | Some y \<Rightarrow> [y])"
  by (simp add: List.map_filter_def split: option.splits)

lemma extractBooks_first_by:
  "extractBooks lc ms = first_by (book_key lc) (List.map_filter message_book ms)"
proof (induction ms rule: rev_induct)
  case Nil
  then show ?case by (simp add: extractBooks_def first_by_Nil map_filter_simps)
next
  case (snoc m ms)
  then show ?case
    using set_first_by [of "book_key lc" "List.map_filter message_book ms"]
    by (simp add: extractBooks_snoc first_by_snoc map_filter_snoc split: option.splits)
qed

lemma prefix_sync_loop:
  "prefix (syncedKeys st) (syncedKeys (fst (sync_loop key publish i cs (st, n, calls))))"
  by (simp add: sync_loop_eq)






lemma take_eq_iff_prefix: "take (length sub) s = sub \<longleftrightarrow> (\<exists>post. s = sub @ post)"
proof
  assume "take (length sub) s = sub"
  then have "s = sub @ drop (length sub) s" by (metis append_take_drop_id)
  then show "\<exists>post. s = sub @ post" ..
next
  assume "\<exists>post. s = sub @ post"
  then show "take (length sub) s = sub" by auto
qed

lemma includes_js_iff: "includes_js s sub \<longleftrightarrow> (\<exists>pre post. s = pre @ sub @ post)"
proof (induction s)
  case Nil
  then show ?case by auto
next
  case (Cons c cs)
  have "(\<exists>pre post. c # cs = pre @ sub @ post) \<longleftrightarrow>
        (\<exists>post. c # cs = sub @ post) \<or> (\<exists>pre post. cs = pre @ sub @ post)"
  proof
    assume "\<exists>pre post. c # cs = pre @ sub @ post"
    then obtain pre post where e: "c # cs = pre @ sub @ post" by blast
    show "(\<exists>post. c # cs = sub @ post) \<or> (\<exists>pre post. cs = pre @ sub @ post)"
    proof (cases pre)
      case Nil
      with e show ?thesis by auto
    next
      case (Cons p pre')
      with e have "cs = pre' @ sub @ post" by simp
      then show ?thesis by blast
    qed
  next
    assume "(\<exists>post. c # cs = sub @ post) \<or> (\<exists>pre post. cs = pre @ sub @ post)"
    then show "\<exists>pre post. c # cs = pre @ sub @ post"
    proof
      assume "\<exists>post. c # cs = sub @ post"
      then obtain post where "c # cs = [] @ sub @ post" by auto
      then show ?thesis by blast
    next
      assume "\<exists>pre post. cs = pre @ sub @ post"
      then obtain pre post where "c # cs = (c # pre) @ sub @ post" by auto
      then show ?thesis by blast
    qed
  qed
  with Cons.IH take_eq_iff_prefix [of sub "c # cs"] show ?case by simp
qed

lemma extractBooks_skip:
  "(\<And>acc. extractBooks_step lc acc m = acc) \<Longrightarrow>
   extractBooks lc (before @ m # after) = extractBooks lc (before @ after)"
  by (simp add: extractBooks_def)

lemma urlRegex_exec_skip: "urlRegex_exec (length xs) (xs @ ys) = urlRegex_exec 0 ys"
proof (induction xs)
  case Nil
  then show ?case by (cases ys) simp_all
next
  case (Cons x xs)
  then show ?case by simp
qed




lemma by_shape_iff:
  "by_shape s g1 g2 \<longleftrightarrow>
     (\<exists>t. s = g1 @ t \<and> g1 \<noteq> [] \<and> \<not> list_ex isLineTerminator g1 \<and> by_tail t g2)"
  unfolding by_shape_def by_tail_def by blast

lemma rest_group_Some:
  "rest_group s = Some g \<longleftrightarrow> g = s \<and> s \<noteq> [] \<and> \<not> list_ex isLineTerminator s"
  by (auto simp: rest_group_def)

lemma ws_group_sound:
  "ws_group s = Some g \<Longrightarrow>
   \<exists>w. s = w @ g \<and> w \<noteq> [] \<and> list_all isWhiteSpace w \<and> g \<noteq> [] \<and> \<not> list_ex isLineTerminator g"
proof (induction s)
  case Nil
  then show ?case by simp
next
  case (Cons c cs)
  from Cons.prems have c: "isWhiteSpace c" by (simp split: if_splits)
  show ?case
  proof (cases "ws_group cs")
    case None
    with Cons.prems c have "rest_group cs = Some g" by simp
    then have "c # cs = [c] @ g" "g \<noteq> []" "\<not> list_ex isLineTerminator g"
      by (simp_all add: rest_group_Some)
    with c show ?thesis by (intro exI [of _ "[c]"]) simp
  next
    case (Some g')
    with Cons.prems c have "g' = g" by simp
    with Some Cons.IH obtain w where w: "cs = w @ g" "list_all isWhiteSpace w"
        "g \<noteq> []" "\<not> list_ex isLineTerminator g"
      by blast
    with c show ?thesis by (intro exI [of _ "c # w"]) simp
  qed
qed

lemma ws_group_complete:
  "w \<noteq> [] \<Longrightarrow> list_all isWhiteSpace w \<Longrightarrow> g \<noteq> [] \<Longrightarrow> \<not> list_ex isLineTerminator g \<Longrightarrow>
   ws_group (w @ g) \<noteq> None"
proof (induction w)
  case Nil
  then show ?case by simp
next
  case (Cons c w)
  show ?case
  proof (cases "w = []")
    case True
    with Cons.prems show ?thesis
      by (cases "ws_group g") (simp_all add: rest_group_def)
  next
    case False
    with Cons have "ws_group (w @ g) \<noteq> None" by simp
    with Cons.prems show ?thesis by auto
  qed
qed

lemma by_ws_group_Some:
  "by_ws_group s = Some g \<longleftrightarrow>
     (\<exists>b y r. s = b # y # r \<and> ci_eq b 0x62 \<and> ci_eq y 0x79 \<and> ws_group r = Some g)"
  by (auto simp: by_ws_group_def split: list.splits)

lemma ci_eq_b_not_ws: "ci_eq b 0x62 \<Longrightarrow> \<not> isWhiteSpace b"
  by (auto simp: ci_eq_def isWhiteSpace_def)

lemma ws_by_ws_group_sound:
  "ws_by_ws_group s = Some g \<Longrightarrow> by_tail s g"
proof (induction s)
  case Nil
  then show ?case by simp
next
  case (Cons c cs)
  from Cons.prems have c: "isWhiteSpace c" by (simp split: if_splits)
  show ?case
  proof (cases "ws_by_ws_group cs")
    case None
    with Cons.prems c have "by_ws_group cs = Some g" by simp
    then obtain b y r where r: "cs = b # y # r" "ci_eq b 0x62" "ci_eq y 0x79" "ws_group r = Some g"
      by (auto simp: by_ws_group_Some)
    from ws_group_sound [OF r(4)] obtain w2 where w2: "r = w2 @ g" "w2 \<noteq> []"
        "list_all isWhiteSpace w2" "g \<noteq> []" "\<not> list_ex isLineTerminator g"
      by blast
    have "c # cs = [c] @ [b, y] @ w2 @ g" using r(1) w2(1) by simp
    with c r(2,3) w2(2-5) show ?thesis
      unfolding by_tail_def by (intro exI [of _ "[c]"] exI [of _ b] exI [of _ y] exI [of _ w2]) simp
  next
    case (Some g')
    with Cons.prems c have "g' = g" by simp
    with Some Cons.IH have "by_tail cs g" by simp
    then obtain w1 b y w2 where t: "cs = w1 @ [b, y] @ w2 @ g" "list_all isWhiteSpace w1"
        "ci_eq b 0x62" "ci_eq y 0x79" "w2 \<noteq> []" "list_all isWhiteSpace w2"
        "g \<noteq> []" "\<not> list_ex isLineTerminator g"
      unfolding by_tail_def by blast
    have "c # cs = (c # w1) @ [b, y] @ w2 @ g" using t(1) by simp
    with c t(2-8) show ?thesis
      unfolding by_tail_def by (intro exI [of _ "c # w1"] exI [of _ b] exI [of _ y] exI [of _ w2]) simp
  qed
qed

lemma ws_by_ws_group_complete_aux:
  "w1 \<noteq> [] \<Longrightarrow> list_all isWhiteSpace w1 \<Longrightarrow> by_ws_group r \<noteq> None \<Longrightarrow>
   ws_by_ws_group (w1 @ r) \<noteq> None"
proof (induction w1)
  case Nil
  then show ?case by simp
next
  case (Cons c w)
  show ?case
  proof (cases "w = []")
    case True
    with Cons.prems show ?thesis by (cases "ws_by_ws_group r") auto
  next
    case False
    with Cons have "ws_by_ws_group (w @ r) \<noteq> None" by simp
    with Cons.prems show ?thesis by auto
  qed
qed

lemma ws_by_ws_group_complete:
  assumes "by_tail s g"
  shows "ws_by_ws_group s \<noteq> None"
proof -
  from assms obtain w1 b y w2 where t: "s = w1 @ [b, y] @ w2 @ g" "w1 \<noteq> []"
      "list_all isWhiteSpace w1" "ci_eq b 0x62" "ci_eq y 0x79" "w2 \<noteq> []"
      "list_all isWhiteSpace w2" "g \<noteq> []" "\<not> list_ex isLineTerminator g"
    unfolding by_tail_def by blast
  from ws_group_complete [OF t(6,7,8,9)] obtain g' where "ws_group (w2 @ g) = Some g'"
    by blast
  with t(4,5) have "by_ws_group ([b, y] @ w2 @ g) \<noteq> None"
    by (simp add: by_ws_group_def)
  from ws_by_ws_group_complete_aux [OF t(2,3) this] show ?thesis
    by (simp add: t(1))
qed


lemma byMatch_from_sound:
  "byMatch_from acc s = Some (g1, g2) \<Longrightarrow>
   \<exists>p t. s = p @ t \<and> p \<noteq> [] \<and> g1 = acc @ p \<and> \<not> list_ex isLineTerminator p \<and> by_tail t g2 \<and>
         (\<forall>p' t' g2'. s = p' @ t' \<and> p' \<noteq> [] \<and> by_tail t' g2' \<longrightarrow> length p \<le> length p')"
proof (induction s arbitrary: acc)
  case Nil
  then show ?case by simp
next
  case (Cons c cs)
  from Cons.prems have c: "\<not> isLineTerminator c" by (simp split: if_splits)
  show ?case
  proof (cases "ws_by_ws_group cs")
    case (Some g)
    with Cons.prems c have e: "g1 = acc @ [c]" "g = g2" by simp_all
    from Some e have "by_tail cs g2" by (simp add: ws_by_ws_group_sound)
    moreover have "\<forall>p' t' g2'. c # cs = p' @ t' \<and> p' \<noteq> [] \<and> by_tail t' g2' \<longrightarrow> length [c] \<le> length p'"
      by (auto simp: Suc_le_eq)
    ultimately show ?thesis using c e(1)
      by (intro exI [of _ "[c]"] exI [of _ cs]) simp
  next
    case None
    with Cons.prems c have "byMatch_from (acc @ [c]) cs = Some (g1, g2)" by simp
    from Cons.IH [OF this] obtain p t where pt: "cs = p @ t" "p \<noteq> []" "g1 = (acc @ [c]) @ p"
        "\<not> list_ex isLineTerminator p" "by_tail t g2"
        and least: "\<forall>p' t' g2'. cs = p' @ t' \<and> p' \<noteq> [] \<and> by_tail t' g2' \<longrightarrow> length p \<le> length p'"
      by blast
    have "length (c # p) \<le> length p'" if h: "c # cs = p' @ t'" "p' \<noteq> []" "by_tail t' g2'" for p' t' g2'
    proof -
      from h(1,2) obtain q where q: "p' = c # q" "cs = q @ t'"
        by (cases p') auto
      have "q \<noteq> []"
      proof
        assume "q = []"
        with q(2) h(3) have "by_tail cs g2'" by simp
        from ws_by_ws_group_complete [OF this] None show False by simp
      qed
      with least q(2) h(3) have "length p \<le> length q" by blast
      with q(1) show ?thesis by simp
    qed
    then have "\<forall>p' t' g2'. c # cs = p' @ t' \<and> p' \<noteq> [] \<and> by_tail t' g2' \<longrightarrow> length (c # p) \<le> length p'"
      by blast
    with pt c show ?thesis
      by (intro exI [of _ "c # p"] exI [of _ t]) simp
  qed
qed

lemma byMatch_from_complete:
  "p \<noteq> [] \<Longrightarrow> \<not> list_ex isLineTerminator p \<Longrightarrow> by_tail t g2 \<Longrightarrow>
   byMatch_from acc (p @ t) \<noteq> None"
proof (induction p arbitrary: acc)
  case Nil
  then show ?case by simp
next
  case (Cons c p)
  from Cons.prems have c: "\<not> isLineTerminator c" by simp
  show ?case
  proof (cases "ws_by_ws_group (p @ t)")
    case (Some g)
    with c show ?thesis by simp
  next
    case None
    have "p \<noteq> []"
    proof
      assume "p = []"
      with None ws_by_ws_group_complete [OF Cons.prems(3)] show False by simp
    qed
    with Cons have "byMatch_from (acc @ [c]) (p @ t) \<noteq> None" by simp
    with None c show ?thesis by simp
  qed
qed

lemma byMatch_sound:
  assumes "byMatch s = Some (g1, g2)"
  shows "by_shape s g1 g2 \<and> (\<forall>g1' g2'. by_shape s g1' g2' \<longrightarrow> length g1 \<le> length g1')"
proof -
  from byMatch_from_sound [OF assms [unfolded byMatch_def]]
  obtain t where pt: "s = g1 @ t" "g1 \<noteq> []" "\<not> list_ex isLineTerminator g1" "by_tail t g2"
    and least: "\<forall>p' t' g2'. s = p' @ t' \<and> p' \<noteq> [] \<and> by_tail t' g2' \<longrightarrow> length g1 \<le> length p'"
    by auto
  from pt have "by_shape s g1 g2" unfolding by_shape_iff by blast
  moreover from least have "\<forall>g1' g2'. by_shape s g1' g2' \<longrightarrow> length g1 \<le> length g1'"
    unfolding by_shape_iff by blast
  ultimately show ?thesis ..
qed

lemma byMatch_complete: "by_shape s g1 g2 \<Longrightarrow> byMatch s \<noteq> None"
  unfolding by_shape_iff byMatch_def using byMatch_from_complete by blast


lemma strip_ci_append: "list_all2 ci_eq p pat \<Longrightarrow> strip_ci pat (p @ r) = Some r"
  by (induction p pat rule: list_all2_induct) simp_all

lemma by_shape_Stand:
  "by_shape (js ''Stand by Me by Ben King'') (js ''Stand by Me'') (js ''Ben King'')"
  unfolding by_shape_def
  by (intro exI [of _ "[0x20]"] exI [of _ "0x62"] exI [of _ "0x79"])
     (simp add: js_def ci_eq_def isWhiteSpace_def isLineTerminator_def)

lemma by_shape_Dune:
  "by_shape (js ''Dune by Frank Herbert'') (js ''Dune'') (js ''Frank Herbert'')"
  unfolding by_shape_def
  by (intro exI [of _ "[0x20]"] exI [of _ "0x62"] exI [of _ "0x79"])
     (simp add: js_def ci_eq_def isWhiteSpace_def isLineTerminator_def)

lemma cleaned_text_plain:
  "cleaned_text (js ''Stand by Me by Ben King'') = js ''Stand by Me by Ben King''"
  "cleaned_text (js ''Dune by Frank Herbert'') = js ''Dune by Frank Herbert''"
  "cleaned_text (js ''Emma'') = js ''Emma''"
  by (simp_all add: eval_defs)

lemma parse_examples:
  "parseBookFromMessage (js ''Stand by Me by Ben King'') =
     Some \<lparr>title = js ''Stand'', author = Some (js ''Me by Ben King'')\<rparr>"
  "parseBookFromMessage (js ''Emma'') = Some \<lparr>title = js ''Emma'', author = None\<rparr>"
  "parseBookFromMessage (book_emoji @ js '' Currently reading: Breakneck by Dan Wang'') =
     Some \<lparr>title = js ''Breakneck'', author = Some (js ''Dan Wang'')\<rparr>"
  by (simp_all add: eval_defs)




lemma in_enumerate: "x \<in> set xs \<Longrightarrow> \<exists>i. (i, x) \<in> set (enumerate 0 xs)"
proof -
  assume "x \<in> set xs"
  then obtain i where "i < length xs" "xs ! i = x" by (auto simp: in_set_conv_nth)
  then have "(i, x) \<in> set (enumerate 0 xs)" by (simp add: in_set_enumerate_eq)
  then show ?thesis ..
qed






lemma log_sync_new:
  "log (sync_new key pub w now st cands) =
     map (\<lambda>(j, c). (c, pub j c)) (enumerate 0 (filter (\<lambda>c. key c \<notin> set (syncedKeys st)) cands))"
  by (simp add: sync_new_def sync_loop_eq Let_def saveState_def)


lemma recorded_sync_new:
  "recorded (sync_new key pub w now st cands) =
     map snd (filter (\<lambda>(j, c). pub j c) (enumerate 0 (filter (\<lambda>c. key c \<notin> set (syncedKeys st)) cands)))"
  by (simp add: recorded_def log_sync_new filter_map comp_def case_prod_unfold)

lemma written_sync_new:
  "written (sync_new key pub w now st cands) =
     (if w then Some \<lparr>syncedKeys = syncedKeys st @ map key (recorded (sync_new key pub w now st cands)),
                      lastSync = Some now\<rparr>
      else None)"
  by (simp add: recorded_sync_new) (simp add: sync_new_def sync_loop_eq Let_def saveState_def)



lemma written_sync_new_prefix:
  "written (sync_new key pub w now st cands) = Some s \<Longrightarrow> prefix (syncedKeys st) (syncedKeys s)"
  by (auto simp: written_sync_new split: if_splits)

lemma main_bookmarks_cases:
  "(log (main_bookmarks cfg disk w reply create now) = [] \<and>
    written (main_bookmarks cfg disk w reply create now) = None \<and>
    ending (main_bookmarks cfg disk w reply create now) \<noteq> Returned) \<or>
   (\<exists>messages st. fetchSlackMessages reply = Inr messages \<and> loadState disk = State st \<and>
      main_bookmarks cfg disk w reply create now =
        sync_new (\<lambda>url. url) create w now st (extractUrls messages))"
  by (cases "fetchSlackMessages reply"; cases "loadState disk")
     (simp_all add: main_bookmarks_def)

lemma main_books_cases:
  "(log (main_books lc cfg shelves disk w reply isbn add now) = [] \<and>
    written (main_books lc cfg shelves disk w reply isbn add now) = None \<and>
    ending (main_books lc cfg shelves disk w reply isbn add now) \<noteq> Returned) \<or>
   (\<exists>messages st shelf. fetchSlackMessages reply = Inr messages \<and> loadState disk = State st \<and>
      find_bookshelf lc cfg shelves = Inr shelf \<and>
      main_books lc cfg shelves disk w reply isbn add now =
        sync_new (book_key lc) (\<lambda>i b. add i b (isbn i b) shelf) w now st
          (extractBooks lc messages))"
proof (cases "find_bookshelf lc cfg shelves")
  case (Inl e)
  then have "e \<noteq> Returned"
    by (auto simp: find_bookshelf_def split: if_splits sum.splits option.splits)
  with Inl show ?thesis by (simp add: main_books_def)
next
  case (Inr shelf)
  then show ?thesis
    by (cases "fetchSlackMessages reply"; cases "loadState disk") (simp_all add: main_books_def)
qed














lemma run_three_books:
  "main_books ascii_toLowerCase full_config (Inl FetchError) NoFile True three_books
      (\<lambda>i b. None) (\<lambda>i b n s. i \<noteq> Suc 0) (js ''T1'') =
     \<lparr>ending = Returned,
      log = [(\<lparr>title = js ''Dune'', author = Some (js ''Frank Herbert'')\<rparr>, True),
             (\<lparr>title = js ''Emma'', author = None\<rparr>, False),
             (\<lparr>title = js ''Ulysses'', author = Some (js ''James Joyce'')\<rparr>, True)],
      written = Some \<lparr>syncedKeys = [js ''dune|frank herbert'', js ''ulysses|james joyce''],
                       lastSync = Some (js ''T1'')\<rparr>\<rparr>"
  by (simp add: three_books_def eval_defs)







section \<open>Loading the state file\<close>




section \<open>Deduplication within one extraction\<close>

text \<open>
  C8. The output of each extractor holds every identity key exactly once, in the order
  of first occurrence, and the element kept for a key is its first occurrence: the urls
  of \<open>extractUrls\<close> are the links of the messages at the positions where they occur for
  the first time, and the books of \<open>extractBooks\<close> are the parsed books at the positions
  where their key (lowercased title, \<open>|\<close>, lowercased author or nothing) occurs for the
  first time.
\<close>

theorem extract_first_occurrence:
  "extractUrls ms = first_by (\<lambda>url. url) (concat (map message_urls ms)) \<and>
   distinct (extractUrls ms) \<and>
   set (extractUrls ms) = set (concat (map message_urls ms)) \<and>
   extractBooks lc ms = first_by (book_key lc) (List.map_filter message_book ms) \<and>
   distinct (map (book_key lc) (extractBooks lc ms)) \<and>
   book_key lc ` set (extractBooks lc ms) = book_key lc ` set (List.map_filter message_book ms)"
proof -
  have a: "extractUrls ms = first_by (\<lambda>url. url) (concat (map message_urls ms))"
    by (simp only: extractUrls_def new_Set_first_by)
  have b: "distinct (extractUrls ms)"
    by (simp only: extractUrls_def distinct_new_Set)
  have c: "set (extractUrls ms) = set (concat (map message_urls ms))"
    by (simp only: extractUrls_def set_new_Set)
  have d: "extractBooks lc ms = first_by (book_key lc) (List.map_filter message_book ms)"
    by (rule extractBooks_first_by)
  have e: "distinct (map (book_key lc) (extractBooks lc ms))"
    by (simp only: d distinct_first_by)
  have f: "book_key lc ` set (extractBooks lc ms)
         = book_key lc ` set (List.map_filter message_book ms)"
    by (simp only: d set_first_by)
  from a b c d e f show ?thesis by (intro conjI)
qed

theorem extract_first_occurrence_witness:
  "extractBooks ascii_toLowerCase
     [user_message ''Dune by Frank Herbert'', user_message ''Emma'',
      user_message ''DUNE by frank herbert'']
   = [\<lparr>title = js ''Dune'', author = Some (js ''Frank Herbert'')\<rparr>,
      \<lparr>title = js ''Emma'', author = None\<rparr>] \<and>
   first_by (book_key ascii_toLowerCase) (List.map_filter message_book
     [user_message ''Dune by Frank Herbert'', user_message ''Emma'',
      user_message ''DUNE by frank herbert''])
   = [\<lparr>title = js ''Dune'', author = Some (js ''Frank Herbert'')\<rparr>,
      \<lparr>title = js ''Emma'', author = None\<rparr>] \<and>
   extractUrls [user_message ''<https://a.example/x|one> and <https://b.example>'',
                user_message ''again <https://a.example/x>'']
   = [js ''https://a.example/x'', js ''https://b.example'']"
proof -
  have "extractBooks ascii_toLowerCase
     [user_message ''Dune by Frank Herbert'', user_message ''Emma'',
      user_message ''DUNE by frank herbert'']
   = [\<lparr>title = js ''Dune'', author = Some (js ''Frank Herbert'')\<rparr>,
      \<lparr>title = js ''Emma'', author = None\<rparr>]"
    by (simp add: eval_defs)
  moreover have "extractUrls [user_message ''<https://a.example/x|one> and <https://b.example>'',
                user_message ''again <https://a.example/x>'']
   = [js ''https://a.example/x'', js ''https://b.example'']"
    by (simp add: eval_defs)
  ultimately show ?thesis
    using extract_first_occurrence [of "[user_message ''Dune by Frank Herbert'',
      user_message ''Emma'', user_message ''DUNE by frank herbert'']" ascii_toLowerCase]
    by simp
qed

section \<open>The synced keys only grow\<close>

text \<open>
  C4. Whenever a run reaches \<open>saveState\<close> and writes a state, the value it loaded at
  the start was a state, and the list of synced keys it writes starts with the list it
  loaded, so every key loaded is still there; and at every point of the loop the list
  in memory starts with the list the loop began with: keys are appended, never removed
  or replaced.
\<close>

theorem syncedKeys_append_only:
  "(written (main_bookmarks cfg disk w reply create now) = Some s \<longrightarrow>
      (\<exists>st. loadState disk = State st \<and>
            prefix (syncedKeys st) (syncedKeys s) \<and>
            set (syncedKeys st) \<subseteq> set (syncedKeys s))) \<and>
   (written (main_books lc cfg shelves disk w reply isbn add now) = Some s' \<longrightarrow>
      (\<exists>st. loadState disk = State st \<and>
            prefix (syncedKeys st) (syncedKeys s') \<and>
            set (syncedKeys st) \<subseteq> set (syncedKeys s'))) \<and>
   prefix (syncedKeys st0) (syncedKeys (fst (sync_loop key publish i cs (st0, n, calls))))"
proof (intro conjI impI)
  assume "written (main_bookmarks cfg disk w reply create now) = Some s"
  with main_bookmarks_cases [of cfg disk w reply create now]
  obtain messages st where "loadState disk = State st"
    and "written (sync_new (\<lambda>url. url) create w now st (extractUrls messages)) = Some s"
    by auto
  then have "loadState disk = State st" "prefix (syncedKeys st) (syncedKeys s)"
    by (auto dest: written_sync_new_prefix)
  then show "\<exists>st. loadState disk = State st \<and> prefix (syncedKeys st) (syncedKeys s) \<and>
            set (syncedKeys st) \<subseteq> set (syncedKeys s)"
    using set_mono_prefix by blast
next
  assume "written (main_books lc cfg shelves disk w reply isbn add now) = Some s'"
  with main_books_cases [of lc cfg shelves disk w reply isbn add now]
  obtain messages st shelf where "loadState disk = State st"
    and "written (sync_new (book_key lc) (\<lambda>i b. add i b (isbn i b) shelf) w now st
           (extractBooks lc messages)) = Some s'"
    by auto
  then have "loadState disk = State st" "prefix (syncedKeys st) (syncedKeys s')"
    by (auto dest: written_sync_new_prefix)
  then show "\<exists>st. loadState disk = State st \<and> prefix (syncedKeys st) (syncedKeys s') \<and>
            set (syncedKeys st) \<subseteq> set (syncedKeys s')"
    using set_mono_prefix by blast
next
  show "prefix (syncedKeys st0) (syncedKeys (fst (sync_loop key publish i cs (st0, n, calls))))"
    by (rule prefix_sync_loop)
qed

theorem syncedKeys_append_only_witness:
  "written (main_bookmarks full_config
      (File (Json \<lparr>syncedKeys = [js ''https://old.example''], lastSync = None\<rparr>)) True
      three_links (\<lambda>i url. i \<noteq> Suc 0) (js ''T1''))
     = Some \<lparr>syncedKeys = [js ''https://old.example'', js ''https://a.example'',
                             js ''https://c.example''],
             lastSync = Some (js ''T1'')\<rparr> \<and>
   prefix [js ''https://old.example'']
     [js ''https://old.example'', js ''https://a.example'', js ''https://c.example''] \<and>
   written (main_books ascii_toLowerCase full_config (Inl FetchError) NoFile True three_books
      (\<lambda>i b. None) (\<lambda>i b n s. i \<noteq> Suc 0) (js ''T1''))
     = Some \<lparr>syncedKeys = [js ''dune|frank herbert'', js ''ulysses|james joyce''],
             lastSync = Some (js ''T1'')\<rparr> \<and>
   prefix [] [js ''dune|frank herbert'', js ''ulysses|james joyce'']"
proof -
  let ?disk = "File (Json \<lparr>syncedKeys = [js ''https://old.example''], lastSync = None\<rparr>)"
  let ?s = "\<lparr>syncedKeys = [js ''https://old.example'', js ''https://a.example'',
                             js ''https://c.example''],
             lastSync = Some (js ''T1'')\<rparr>"
  let ?sb = "\<lparr>syncedKeys = [js ''dune|frank herbert'', js ''ulysses|james joyce''],
             lastSync = Some (js ''T1'')\<rparr>"
  have wr: "written (main_bookmarks full_config ?disk True three_links (\<lambda>i url. i \<noteq> Suc 0)
              (js ''T1'')) = Some ?s"
    by (simp add: three_links_def eval_defs)
  have wb: "written (main_books ascii_toLowerCase full_config (Inl FetchError) NoFile True
      three_books (\<lambda>i b. None) (\<lambda>i b n s. i \<noteq> Suc 0) (js ''T1'')) = Some ?sb"
    by (simp add: run_three_books)
  have l: "loadState ?disk = State \<lparr>syncedKeys = [js ''https://old.example''], lastSync = None\<rparr>"
    by (simp add: eval_defs)
  have lb: "loadState NoFile = State \<lparr>syncedKeys = [], lastSync = None\<rparr>"
    by (simp add: eval_defs)
  have a: "prefix [js ''https://old.example'']
     [js ''https://old.example'', js ''https://a.example'', js ''https://c.example'']"
    using syncedKeys_append_only [where cfg = full_config and disk = ?disk and w = True
        and reply = three_links and create = "\<lambda>i url. i \<noteq> Suc 0" and now = "js ''T1''"
        and s = ?s, THEN conjunct1] wr
    unfolding l by simp
  have b: "prefix [] [js ''dune|frank herbert'', js ''ulysses|james joyce'']"
    using syncedKeys_append_only [where cfg = full_config and disk = NoFile and w = True
        and reply = three_books and lc = ascii_toLowerCase and shelves = "Inl FetchError"
        and isbn = "\<lambda>i b. None" and add = "\<lambda>i b n s. i \<noteq> Suc 0" and now = "js ''T1''"
        and s' = ?sb, THEN conjunct2, THEN conjunct1] wb
    unfolding lb by simp
  from wr a wb b show ?thesis by (intro conjI)
qed

section \<open>One failed item does not stop the others\<close>



section \<open>Running twice on the same messages\<close>




section \<open>A failed fetch\<close>




section \<open>The self-link filter of extractUrls\<close>

text \<open>
  C10. A url is among the candidates of \<open>extractUrls\<close> exactly when the regular
  expression matches it somewhere in the text of one of the messages and the url
  string does not contain \<open>slack.com\<close> as a substring. The test is on the whole url
  string: \<open>https://example.com/slack.com-review\<close> is dropped although its host is not
  the chat platform's.
\<close>

theorem self_link_filter_is_substring_test:
  "url \<in> set (extractUrls ms) \<longleftrightarrow>
     (\<exists>m\<in>set ms. \<exists>label. (url, label) \<in> set (urlRegex_exec 0 (or_empty (msg_text m)))) \<and>
     \<not> (\<exists>pre post. url = pre @ js ''slack.com'' @ post)"
  by (simp only: extractUrls_def set_new_Set includes_js_iff [symmetric])
     (force simp: message_urls_def)

theorem self_link_filter_is_substring_test_witness:
  "js ''https://example.com/slack.com-review'' \<notin>
     set (extractUrls [user_message ''<https://example.com/slack.com-review> <https://example.com/ok>'']) \<and>
   extractUrls [user_message ''<https://example.com/slack.com-review> <https://example.com/ok>'']
     = [js ''https://example.com/ok'']"
proof -
  have "includes_js (js ''https://example.com/slack.com-review'') (js ''slack.com'')"
    by (simp add: js_def)
  then have "\<exists>pre post. js ''https://example.com/slack.com-review'' = pre @ js ''slack.com'' @ post"
    by (simp only: includes_js_iff)
  with self_link_filter_is_substring_test [of "js ''https://example.com/slack.com-review''"
      "[user_message ''<https://example.com/slack.com-review> <https://example.com/ok>'']"]
  have "js ''https://example.com/slack.com-review'' \<notin>
     set (extractUrls [user_message ''<https://example.com/slack.com-review> <https://example.com/ok>''])"
    by blast
  moreover have "extractUrls [user_message ''<https://example.com/slack.com-review> <https://example.com/ok>'']
     = [js ''https://example.com/ok'']"
    by (simp add: eval_defs)
  ultimately show ?thesis by (intro conjI)
qed

section \<open>Messages of bots, threads and the system\<close>

text \<open>
  C5, as the code has it. \<open>extractBooks\<close> skips a message whose \<open>bot_id\<close>, \<open>thread_ts\<close> or
  \<open>subtype\<close> is set before it parses anything: the round of the loop leaves \<open>books\<close> and
  \<open>seenTitles\<close> as they were, and the result is the one without that message.
  \<open>extractUrls\<close> has no such test: it reads the text of a message and nothing else, so
  its candidates are the same whatever these three fields hold.
\<close>

theorem skip_rules_of_the_extractors:
  "(truthy (bot_id m) \<or> truthy (thread_ts m) \<or> truthy (subtype m) \<longrightarrow>
      extractBooks_step lc acc m = acc \<and>
      extractBooks lc (before @ m # after) = extractBooks lc (before @ after)) \<and>
   message_urls (m\<lparr>bot_id := b, thread_ts := t, subtype := s\<rparr>) = message_urls m \<and>
   extractUrls (before @ m\<lparr>bot_id := b, thread_ts := t, subtype := s\<rparr> # after)
     = extractUrls (before @ m # after)"
proof (intro conjI impI)
  assume "truthy (bot_id m) \<or> truthy (thread_ts m) \<or> truthy (subtype m)"
  then show a: "extractBooks_step lc acc m = acc" for acc
    by (auto simp: extractBooks_step_def Let_def)
  show "extractBooks lc (before @ m # after) = extractBooks lc (before @ after)"
    using a by (rule extractBooks_skip)
next
  show c: "message_urls (m\<lparr>bot_id := b, thread_ts := t, subtype := s\<rparr>) = message_urls m"
    by (simp add: message_urls_def)
  show "extractUrls (before @ m\<lparr>bot_id := b, thread_ts := t, subtype := s\<rparr> # after)
     = extractUrls (before @ m # after)"
    by (simp add: extractUrls_def c)
qed

theorem skip_rules_of_the_extractors_witness:
  "extractBooks ascii_toLowerCase [user_message ''Emma'', bot_message ''Dune by Frank Herbert'']
     = extractBooks ascii_toLowerCase [user_message ''Emma''] \<and>
   extractBooks ascii_toLowerCase [user_message ''Emma''] = [\<lparr>title = js ''Emma'', author = None\<rparr>]"
proof -
  have "truthy (bot_id (bot_message ''Dune by Frank Herbert''))"
    by (simp add: bot_message_def truthy_def js_def)
  with skip_rules_of_the_extractors [of "bot_message ''Dune by Frank Herbert''" ascii_toLowerCase _
      "[user_message ''Emma'']" "[]"]
  have "extractBooks ascii_toLowerCase [user_message ''Emma'', bot_message ''Dune by Frank Herbert'']
     = extractBooks ascii_toLowerCase [user_message ''Emma'']"
    by simp
  moreover have "extractBooks ascii_toLowerCase [user_message ''Emma''] = [\<lparr>title = js ''Emma'', author = None\<rparr>]"
    by (simp add: eval_defs)
  ultimately show ?thesis by (intro conjI)
qed

theorem bot_link_extracted_counterexample:
  "extractUrls [\<lparr>msg_text = Some (js ''<https://a.example>''), bot_id = Some (js ''B01''),
                 thread_ts = Some (js ''1700000000.000100''), subtype = Some (js ''bot_message'')\<rparr>]
     = [js ''https://a.example'']"
  by (simp add: eval_defs)

section \<open>Links with a label\<close>




section \<open>Parsing a book message\<close>

text \<open>
  C7, as the code has it. \<open>parseBookFromMessage\<close> cuts the known prefixes from the start
  of the text, each with the white space after it and whatever the case of its letters
  (the book emoji, then \<open>currently reading:\<close>, then \<open>reading:\<close>, then \<open>now reading:\<close>), and
  trims the result. If that text has the shape title, white space, \<open>by\<close> in either case,
  white space, author (both parts without line terminator), the result has an author,
  and the title is the shortest one for which the text has that shape: the quantifier
  of the title is lazy, so the text is split at the first \<open>by\<close>, and a later \<open>by\<close>
  belongs to the author. If the text has no such shape, the result is the whole text as
  title with no author when its length is at least 1 and below 200 code units, and
  nothing otherwise.
\<close>

theorem parseBookFromMessage_splits_at_first_by:
  "(list_all2 ci_eq p pat \<longrightarrow> replace_prefix pat (p @ r) = dropWhile isWhiteSpace r) \<and>
   (parseBookFromMessage t = Some b \<and> author b = Some a \<longrightarrow>
      (\<exists>g1 g2. by_shape (cleaned_text t) g1 g2 \<and> title b = trim g1 \<and> a = trim g2 \<and>
               (\<forall>g1' g2'. by_shape (cleaned_text t) g1' g2' \<longrightarrow> length g1 \<le> length g1'))) \<and>
   (by_shape (cleaned_text t) g1 g2 \<longrightarrow>
      (\<exists>b a. parseBookFromMessage t = Some b \<and> author b = Some a)) \<and>
   ((\<forall>g1 g2. \<not> by_shape (cleaned_text t) g1 g2) \<longrightarrow>
      parseBookFromMessage t =
        (if 0 < length (cleaned_text t) \<and> length (cleaned_text t) < 200
         then Some \<lparr>title = cleaned_text t, author = None\<rparr> else None)) \<and>
   parseBookFromMessage (book_emoji @ js '' Currently reading: Breakneck by Dan Wang'') =
     Some \<lparr>title = js ''Breakneck'', author = Some (js ''Dan Wang'')\<rparr>"
proof (intro conjI)
  show "list_all2 ci_eq p pat \<longrightarrow> replace_prefix pat (p @ r) = dropWhile isWhiteSpace r"
    by (simp add: replace_prefix_def strip_ci_append)
next
  show "parseBookFromMessage t = Some b \<and> author b = Some a \<longrightarrow>
      (\<exists>g1 g2. by_shape (cleaned_text t) g1 g2 \<and> title b = trim g1 \<and> a = trim g2 \<and>
               (\<forall>g1' g2'. by_shape (cleaned_text t) g1' g2' \<longrightarrow> length g1 \<le> length g1'))"
  proof
    assume h: "parseBookFromMessage t = Some b \<and> author b = Some a"
    then obtain g1 g2 where m: "byMatch (cleaned_text t) = Some (g1, g2)"
      and b: "b = \<lparr>title = trim g1, author = Some (trim g2)\<rparr>"
      by (auto simp: parseBookFromMessage_def Let_def split: option.splits if_splits)
    from byMatch_sound [OF m] b h
    show "\<exists>g1 g2. by_shape (cleaned_text t) g1 g2 \<and> title b = trim g1 \<and> a = trim g2 \<and>
               (\<forall>g1' g2'. by_shape (cleaned_text t) g1' g2' \<longrightarrow> length g1 \<le> length g1')"
      by (intro exI [of _ g1] exI [of _ g2]) simp
  qed
next
  show "by_shape (cleaned_text t) g1 g2 \<longrightarrow>
      (\<exists>b a. parseBookFromMessage t = Some b \<and> author b = Some a)"
  proof
    assume "by_shape (cleaned_text t) g1 g2"
    from byMatch_complete [OF this] obtain h1 h2 where "byMatch (cleaned_text t) = Some (h1, h2)"
      by auto
    then show "\<exists>b a. parseBookFromMessage t = Some b \<and> author b = Some a"
      by (simp add: parseBookFromMessage_def)
  qed
next
  show "(\<forall>g1 g2. \<not> by_shape (cleaned_text t) g1 g2) \<longrightarrow>
      parseBookFromMessage t =
        (if 0 < length (cleaned_text t) \<and> length (cleaned_text t) < 200
         then Some \<lparr>title = cleaned_text t, author = None\<rparr> else None)"
  proof
    assume n: "\<forall>g1 g2. \<not> by_shape (cleaned_text t) g1 g2"
    have "byMatch (cleaned_text t) = None"
    proof (cases "byMatch (cleaned_text t)")
      case None
      then show ?thesis .
    next
      case (Some g)
      then obtain g1 g2 where "byMatch (cleaned_text t) = Some (g1, g2)" by (cases g) simp
      from byMatch_sound [OF this] n show ?thesis by blast
    qed
    then show "parseBookFromMessage t =
        (if 0 < length (cleaned_text t) \<and> length (cleaned_text t) < 200
         then Some \<lparr>title = cleaned_text t, author = None\<rparr> else None)"
      by (simp add: parseBookFromMessage_def)
  qed
next
  show "parseBookFromMessage (book_emoji @ js '' Currently reading: Breakneck by Dan Wang'') =
     Some \<lparr>title = js ''Breakneck'', author = Some (js ''Dan Wang'')\<rparr>"
    by (rule parse_examples(3))
qed

theorem parseBookFromMessage_splits_at_first_by_witness:
  "replace_prefix (js ''now reading:'') (js ''NOW Reading:'' @ js ''  Emma'') = js ''Emma'' \<and>
   (\<exists>g1 g2. by_shape (js ''Stand by Me by Ben King'') g1 g2 \<and>
        js ''Stand'' = trim g1 \<and> js ''Me by Ben King'' = trim g2 \<and>
        (\<forall>g1' g2'. by_shape (js ''Stand by Me by Ben King'') g1' g2' \<longrightarrow> length g1 \<le> length g1')) \<and>
   (\<exists>b a. parseBookFromMessage (js ''Dune by Frank Herbert'') = Some b \<and> author b = Some a) \<and>
   parseBookFromMessage (js ''Emma'') = Some \<lparr>title = js ''Emma'', author = None\<rparr>"
proof -
  note t = parseBookFromMessage_splits_at_first_by
  have a: "replace_prefix (js ''now reading:'') (js ''NOW Reading:'' @ js ''  Emma'') = js ''Emma''"
  proof -
    have "list_all2 ci_eq (js ''NOW Reading:'') (js ''now reading:'')"
      by (simp add: js_def ci_eq_def)
    with t [where p = "js ''NOW Reading:''" and pat = "js ''now reading:''" and r = "js ''  Emma''",
        THEN conjunct1]
    show ?thesis by (simp add: js_def isWhiteSpace_def)
  qed
  have b: "\<exists>g1 g2. by_shape (js ''Stand by Me by Ben King'') g1 g2 \<and>
        js ''Stand'' = trim g1 \<and> js ''Me by Ben King'' = trim g2 \<and>
        (\<forall>g1' g2'. by_shape (js ''Stand by Me by Ben King'') g1' g2' \<longrightarrow> length g1 \<le> length g1')"
    using t [where t = "js ''Stand by Me by Ben King''"
        and b = "\<lparr>title = js ''Stand'', author = Some (js ''Me by Ben King'')\<rparr>"
        and a = "js ''Me by Ben King''", THEN conjunct2, THEN conjunct1]
    by (simp add: parse_examples(1) cleaned_text_plain(1))
  have c: "\<exists>b a. parseBookFromMessage (js ''Dune by Frank Herbert'') = Some b \<and> author b = Some a"
    using t [where t = "js ''Dune by Frank Herbert''" and ?g1.0 = "js ''Dune''"
        and ?g2.0 = "js ''Frank Herbert''", THEN conjunct2, THEN conjunct2, THEN conjunct1]
      by_shape_Dune
    by (simp add: cleaned_text_plain(2))
  have d: "parseBookFromMessage (js ''Emma'') = Some \<lparr>title = js ''Emma'', author = None\<rparr>"
  proof -
    have "\<forall>g1 g2. \<not> by_shape (cleaned_text (js ''Emma'')) g1 g2"
    proof (intro allI notI)
      fix g1 g2 assume "by_shape (cleaned_text (js ''Emma'')) g1 g2"
      with t [where t = "js ''Emma''" and ?g1.0 = g1 and ?g2.0 = g2,
          THEN conjunct2, THEN conjunct2, THEN conjunct1]
      show False by (simp add: parse_examples(2))
    qed
    with t [where t = "js ''Emma''", THEN conjunct2, THEN conjunct2, THEN conjunct2, THEN conjunct1]
    show ?thesis unfolding cleaned_text_plain(3) by (simp add: js_def)
  qed
  from a b c d show ?thesis by (intro conjI)
qed

theorem title_not_greedy_counterexample:
  "parseBookFromMessage (js ''Stand by Me by Ben King'') =
     Some \<lparr>title = js ''Stand'', author = Some (js ''Me by Ben King'')\<rparr> \<and>
   cleaned_text (js ''Stand by Me by Ben King'') = js ''Stand by Me by Ben King'' \<and>
   by_shape (js ''Stand by Me by Ben King'') (js ''Stand by Me'') (js ''Ben King'')"
  using parse_examples(1) cleaned_text_plain(1) by_shape_Stand by (intro conjI)

end
